theory Spec2Isabelle
  imports Main "HOL-Library.Sublist"
begin

section \<open>Data model (app/models.py, app/schemas.py)\<close>

text \<open>
  A \<open>datetime\<close> is a reading of the wall clock, counted in microseconds (the resolution
  of Python's \<open>datetime\<close>). The source reads the clock with \<open>datetime.now(UTC)\<close>; the
  model takes every such reading as an explicit argument of the operation that makes it.
\<close>

type_synonym datetime = int

text \<open>
  \<open>class Task(SQLModel, table=True)\<close>. The primary key \<open>id\<close> is \<open>Optional[int]\<close>: it is
  \<open>None\<close> until the row is inserted. The field is called \<open>id_pk\<close> here, \<open>id\<close> being the
  identity function of HOL.
\<close>

record task =
  id_pk :: "int option"
  title :: string
  description :: "string option"
  status :: string
  created_at :: datetime
  updated_at :: datetime

text \<open>
  \<open>class TaskUpdate(BaseModel)\<close>: the body of a PUT request, after validation. Each field
  is \<open>Optional[str]\<close> with default \<open>None\<close>.
\<close>

record task_update =
  u_title :: "string option"
  u_description :: "string option"
  u_status :: "string option"

section \<open>Storage\<close>

text \<open>
  The session is the table of tasks: the rows in the order in which a plain
  \<open>select(Task)\<close> scans them.
\<close>

type_synonym session = "task list"

text \<open>
  Modelled from the spec: the storage gateway (app/database.py) and the engine behind it
  are not part of the sources. The spec says that \<open>id\<close> is generated by storage and unique;
  the model hands out one more than the largest key in the table (and 1 for an empty
  table), the way an integer primary key is filled in.
\<close>

definition next_id :: "session \<Rightarrow> int" where
  "next_id s = fold (\<lambda>t m. case id_pk t of None \<Rightarrow> m | Some i \<Rightarrow> max m i) s 0 + 1"

text \<open>\<open>session.get(Task, task_id)\<close>: the row whose primary key is \<open>task_id\<close>, or \<open>None\<close>.\<close>

definition session_get :: "session \<Rightarrow> int \<Rightarrow> task option" where
  "session_get s task_id = find (\<lambda>t. id_pk t = Some task_id) s"

text \<open>
  \<open>session.add(task); session.commit()\<close> for a task that has no key yet: the row is
  inserted under a fresh key; \<open>session.refresh(task)\<close> reads it back.
\<close>

definition session_insert :: "session \<Rightarrow> task \<Rightarrow> task \<times> session" where
  "session_insert s t = (let t' = t\<lparr>id_pk := Some (next_id s)\<rparr> in (t', s @ [t']))"

text \<open>
  \<open>session.add(task); session.commit()\<close> for a task read from the table: the row with
  the task's key is overwritten (\<open>UPDATE task SET ... WHERE id = ?\<close>).
\<close>

definition session_store :: "session \<Rightarrow> task \<Rightarrow> session" where
  "session_store s t = map (\<lambda>r. if id_pk r = id_pk t then t else r) s"

text \<open>\<open>session.delete(task)\<close>, committed: \<open>DELETE FROM task WHERE id = ?\<close>.\<close>

definition session_delete :: "task \<Rightarrow> session \<Rightarrow> session" where
  "session_delete t s = filter (\<lambda>r. id_pk r \<noteq> id_pk t) s"

text \<open>
  \<open>.offset(n)\<close> and \<open>.limit(n)\<close> of a select. The arguments are Python integers; a
  negative offset skips nothing and a negative limit does not limit (outside the callers'
  contract, which has \<open>skip \<ge> 0\<close> and \<open>1 \<le> limit \<le> 1000\<close>).
\<close>

definition sql_offset :: "int \<Rightarrow> 'a list \<Rightarrow> 'a list" where
  "sql_offset n xs = drop (nat n) xs"

definition sql_limit :: "int \<Rightarrow> 'a list \<Rightarrow> 'a list" where
  "sql_limit n xs = (if n < 0 then xs else take (nat n) xs)"

section \<open>The repository (app/crud.py)\<close>

text \<open>
  \<open>create_task\<close>. \<open>Task(title=..., description=..., status=...)\<close> fills \<open>created_at\<close> and
  \<open>updated_at\<close> from their \<open>default_factory=current_time\<close>, one call of \<open>current_time()\<close>
  for each field in the order of the fields: \<open>t_created\<close> is the first reading and
  \<open>t_updated\<close> the second.
\<close>

definition create_task ::
  "session \<Rightarrow> datetime \<Rightarrow> datetime \<Rightarrow> string \<Rightarrow> string option \<Rightarrow> string \<Rightarrow> task \<times> session" where
  "create_task s t_created t_updated title' description' status' =
     session_insert s
       \<lparr>id_pk = None, title = title', description = description', status = status',
        created_at = t_created, updated_at = t_updated\<rparr>"

definition get_task_by_id :: "session \<Rightarrow> int \<Rightarrow> task option" where
  "get_task_by_id s task_id = session_get s task_id"

definition get_all_tasks :: "session \<Rightarrow> int \<Rightarrow> int \<Rightarrow> task list" where
  "get_all_tasks s skip limit = sql_limit limit (sql_offset skip s)"

text \<open>\<open>get_all_tasks(session)\<close> with the defaults \<open>skip=0, limit=100\<close> of the signature.\<close>

definition get_all_tasks_default :: "session \<Rightarrow> task list" where
  "get_all_tasks_default s = get_all_tasks s 0 100"

definition has_status :: "string \<Rightarrow> task \<Rightarrow> bool" where
  "has_status x t = (status t = x)"

definition get_tasks_by_status :: "session \<Rightarrow> string \<Rightarrow> task list" where
  "get_tasks_by_status s status' = filter (has_status status') s"

text \<open>
  \<open>update_task\<close>; \<open>now\<close> is the reading of \<open>datetime.now(UTC)\<close> on line 54. The result is
  the value returned and the table afterwards.
\<close>

definition update_task ::
  "session \<Rightarrow> datetime \<Rightarrow> int \<Rightarrow> string option \<Rightarrow> string option \<Rightarrow> string option
     \<Rightarrow> task option \<times> session" where
  "update_task s now task_id title' description' status' =
     (case session_get s task_id of
        None \<Rightarrow> (None, s)
      | Some task0 \<Rightarrow>
          let task1 = (case title' of None \<Rightarrow> task0 | Some v \<Rightarrow> task0\<lparr>title := v\<rparr>);
              task2 = (case description' of None \<Rightarrow> task1
                       | Some v \<Rightarrow> task1\<lparr>description := Some v\<rparr>);
              task3 = (case status' of None \<Rightarrow> task2 | Some v \<Rightarrow> task2\<lparr>status := v\<rparr>);
              task4 = task3\<lparr>updated_at := now\<rparr>
          in (Some task4, session_store s task4))"

definition delete_task :: "session \<Rightarrow> int \<Rightarrow> bool \<times> session" where
  "delete_task s task_id =
     (case session_get s task_id of
        None \<Rightarrow> (False, s)
      | Some task0 \<Rightarrow> (True, session_delete task0 s))"

text \<open>
  \<open>delete_all_tasks\<close>: the rows are read and counted, then deleted one by one in the
  \<open>for\<close> loop.
\<close>

definition delete_all_tasks :: "session \<Rightarrow> int \<times> session" where
  "delete_all_tasks s =
     (let tasks = s;
          count = int (length tasks)
      in (count, fold session_delete tasks s))"

section \<open>The PUT endpoint (app/main.py)\<close>

datatype http_error = HTTP_400_BAD_REQUEST | HTTP_404_NOT_FOUND

text \<open>Python's truth value of an \<open>Optional[str]\<close>: \<open>None\<close> and the empty string are false.\<close>

definition truthy :: "string option \<Rightarrow> bool" where
  "truthy v = (case v of None \<Rightarrow> False | Some x \<Rightarrow> x \<noteq> [])"

text \<open>\<open>any(xs)\<close> of a list of such values.\<close>

definition any_truthy :: "string option list \<Rightarrow> bool" where
  "any_truthy xs = list_ex truthy xs"

definition update_existing_task ::
  "session \<Rightarrow> datetime \<Rightarrow> int \<Rightarrow> task_update \<Rightarrow> (http_error + task) \<times> session" where
  "update_existing_task s now task_id task_data =
     (if \<not> any_truthy [u_title task_data, u_description task_data, u_status task_data]
      then (Inl HTTP_400_BAD_REQUEST, s)
      else
        (case update_task s now task_id
                (u_title task_data) (u_description task_data) (u_status task_data) of
           (None, s') \<Rightarrow> (Inl HTTP_404_NOT_FOUND, s')
         | (Some updated_task, s') \<Rightarrow> (Inr updated_task, s')))"

section \<open>Histories of operations\<close>

text \<open>
  A call of one of the four mutating operations of the repository, with the clock
  readings it makes and its arguments.
\<close>

datatype operation =
    Create datetime datetime string "string option" string
  | Update datetime int "string option" "string option" "string option"
  | Delete int
  | DeleteAll

fun apply_operation :: "session \<Rightarrow> operation \<Rightarrow> session" where
  "apply_operation s (Create t1 t2 ti d st) = snd (create_task s t1 t2 ti d st)"
| "apply_operation s (Update now i ti d st) = snd (update_task s now i ti d st)"
| "apply_operation s (Delete i) = snd (delete_task s i)"
| "apply_operation s DeleteAll = snd (delete_all_tasks s)"

text \<open>The clock readings of a call, in the order in which they are made.\<close>

fun clock_readings :: "operation \<Rightarrow> datetime list" where
  "clock_readings (Create t1 t2 ti d st) = [t1, t2]"
| "clock_readings (Update now i ti d st) = [now]"
| "clock_readings (Delete i) = []"
| "clock_readings DeleteAll = []"

text \<open>The key and the creation time of every row, in table order.\<close>

definition created_view :: "session \<Rightarrow> (int option \<times> datetime) list" where
  "created_view s = map (\<lambda>t. (id_pk t, created_at t)) s"

text \<open>What a call adds to that view: the row of a \<open>Create\<close>, nothing otherwise.\<close>

fun created_by :: "session \<Rightarrow> operation \<Rightarrow> (int option \<times> datetime) list" where
  "created_by s (Create t1 t2 ti d st) = [(Some (next_id s), t1)]"
| "created_by s (Update now i ti d st) = []"
| "created_by s (Delete i) = []"
| "created_by s DeleteAll = []"

text \<open>The rows created along a history that starts in table \<open>s\<close>.\<close>

fun created_in :: "session \<Rightarrow> operation list \<Rightarrow> (int option \<times> datetime) list" where
  "created_in s [] = []"
| "created_in s (op # ops) = created_by s op @ created_in (apply_operation s op) ops"

text \<open>
  The clock never runs backwards: the readings of a history, taken in order after a
  reading \<open>c\<close>, are non-decreasing.
\<close>

definition chronological :: "datetime \<Rightarrow> operation list \<Rightarrow> bool" where
  "chronological c ops = sorted (c # concat (map clock_readings ops))"

section \<open>Properties of tables\<close>

text \<open>Every row has \<open>created_at \<le> updated_at\<close>.\<close>

definition time_ordered :: "session \<Rightarrow> bool" where
  "time_ordered s = list_all (\<lambda>t. created_at t \<le> updated_at t) s"

text \<open>The same, and no row was updated later than the clock reading \<open>c\<close>.\<close>

definition times_within :: "datetime \<Rightarrow> session \<Rightarrow> bool" where
  "times_within c s = list_all (\<lambda>t. created_at t \<le> updated_at t \<and> updated_at t \<le> c) s"

text \<open>Every row has a key.\<close>

definition keyed :: "session \<Rightarrow> bool" where
  "keyed s = list_all (\<lambda>t. id_pk t \<noteq> None) s"

text \<open>Row \<open>a\<close> has a smaller key than row \<open>b\<close>.\<close>

definition id_before :: "task \<Rightarrow> task \<Rightarrow> bool" where
  "id_before a b = (case (id_pk a, id_pk b) of (Some i, Some j) \<Rightarrow> i < j | _ \<Rightarrow> False)"

section \<open>Concrete tables\<close>

definition task_A :: task where
  "task_A = \<lparr>id_pk = Some 1, title = ''A'', description = Some ''first'', status = ''pending'',
             created_at = 100, updated_at = 100\<rparr>"

definition task_B :: task where
  "task_B = \<lparr>id_pk = Some 2, title = ''B'', description = None, status = ''pending'',
             created_at = 110, updated_at = 120\<rparr>"

definition task_C :: task where
  "task_C = \<lparr>id_pk = Some 3, title = ''C'', description = None, status = ''completed'',
             created_at = 130, updated_at = 130\<rparr>"

definition three_tasks :: session where
  "three_tasks = [task_A, task_B, task_C]"

text \<open>A table of 101 rows with keys 1 to 101; only the last has status \<open>late\<close>.\<close>

definition numbered_task :: "nat \<Rightarrow> task" where
  "numbered_task n =
     \<lparr>id_pk = Some (int n), title = ''T'', description = None,
      status = (if n = 101 then ''late'' else ''pending''),
      created_at = int n, updated_at = int n\<rparr>"

definition many_tasks :: session where
  "many_tasks = map numbered_task [1..<102]"

text \<open>Two creates, an update of the first task and the deletion of the second.\<close>

definition history_example :: "operation list" where
  "history_example =
     [Create 10 11 ''A'' None ''pending'',
      Create 12 12 ''B'' (Some ''second'') ''pending'',
      Update 20 1 None None (Some ''done''),
      Delete 2]"

section \<open>Lemmas about the storage operations\<close>

lemma session_get_Some_id: "session_get s i = Some t \<Longrightarrow> id_pk t = Some i \<and> t \<in> set s"
  unfolding session_get_def by (auto simp: find_Some_iff)

lemma session_get_None_iff: "session_get s i = None \<longleftrightarrow> Some i \<notin> id_pk ` set s"
  unfolding session_get_def by (auto simp: find_None_iff image_iff)

lemma session_get_store:
  "session_get s i = Some t0 \<Longrightarrow> id_pk t = Some i \<Longrightarrow> session_get (session_store s t) i = Some t"
  unfolding session_get_def session_store_def
  by (induction s) (auto split: if_splits)

lemma session_get_delete:
  "id_pk t = Some i \<Longrightarrow> session_get (session_delete t s) i = None"
  unfolding session_get_def session_delete_def by (auto simp: find_None_iff)

lemma session_get_delete_other:
  "id_pk t \<noteq> Some j \<Longrightarrow> session_get (session_delete t s) j = session_get s j"
  unfolding session_get_def session_delete_def
  by (induction s) auto

lemma fold_session_delete_set:
  "set (fold session_delete ts s) = {r \<in> set s. id_pk r \<notin> id_pk ` set ts}"
  by (induction ts arbitrary: s) (auto simp: session_delete_def)

lemma fold_session_delete_self: "fold session_delete s s = []"
proof -
  have "set (fold session_delete s s) = {}"
    unfolding fold_session_delete_set by auto
  then show ?thesis by simp
qed

lemma fold_max_ge:
  "m \<le> fold (\<lambda>t m. case id_pk t of None \<Rightarrow> m | Some i \<Rightarrow> max m i) s (m::int)"
proof (induction s arbitrary: m)
  case Nil
  then show ?case by simp
next
  case (Cons a s)
  have "m \<le> (case id_pk a of None \<Rightarrow> m | Some i \<Rightarrow> max m i)"
    by (simp split: option.split)
  also have "\<dots> \<le> fold (\<lambda>t m. case id_pk t of None \<Rightarrow> m | Some i \<Rightarrow> max m i) s \<dots>"
    by (rule Cons.IH)
  finally show ?case by simp
qed

lemma fold_max_ge_key:
  "t \<in> set s \<Longrightarrow> id_pk t = Some i \<Longrightarrow>
     i \<le> fold (\<lambda>t m. case id_pk t of None \<Rightarrow> m | Some i \<Rightarrow> max m i) s (m::int)"
proof (induction s arbitrary: m)
  case Nil
  then show ?case by simp
next
  case (Cons a s)
  show ?case
  proof (cases "t = a")
    case True
    have "i \<le> max m i" by simp
    also have "\<dots> \<le> fold (\<lambda>t m. case id_pk t of None \<Rightarrow> m | Some i \<Rightarrow> max m i) s (max m i)"
      by (rule fold_max_ge)
    finally show ?thesis using True Cons.prems by simp
  next
    case False
    then have "t \<in> set s" using Cons.prems by simp
    from Cons.IH[OF this Cons.prems(2)] show ?thesis by simp
  qed
qed

lemma next_id_fresh: "t \<in> set s \<Longrightarrow> id_pk t = Some i \<Longrightarrow> i < next_id s"
  unfolding next_id_def using fold_max_ge_key[of t s i 0] by simp

lemma session_get_next_id: "session_get s (next_id s) = None"
  unfolding session_get_None_iff using next_id_fresh by force

lemma session_get_append_new:
  "session_get s i = None \<Longrightarrow> id_pk t = Some i \<Longrightarrow> session_get (s @ [t]) i = Some t"
  unfolding session_get_def by (induction s) (auto split: if_splits)

lemma update_task_found:
  assumes "session_get s task_id = Some old"
  shows "\<exists>new. update_task s now task_id ti d st = (Some new, session_store s new)
           \<and> session_get (session_store s new) task_id = Some new
           \<and> title new = (case ti of None \<Rightarrow> title old | Some v \<Rightarrow> v)
           \<and> description new = (case d of None \<Rightarrow> description old | Some v \<Rightarrow> Some v)
           \<and> status new = (case st of None \<Rightarrow> status old | Some v \<Rightarrow> v)
           \<and> id_pk new = id_pk old
           \<and> created_at new = created_at old
           \<and> updated_at new = now"
proof -
  from assms have k: "id_pk old = Some task_id"
    by (simp add: session_get_Some_id)
  define t1 where "t1 = (case ti of None \<Rightarrow> old | Some v \<Rightarrow> old\<lparr>title := v\<rparr>)"
  define t2 where "t2 = (case d of None \<Rightarrow> t1 | Some v \<Rightarrow> t1\<lparr>description := Some v\<rparr>)"
  define t3 where "t3 = (case st of None \<Rightarrow> t2 | Some v \<Rightarrow> t2\<lparr>status := v\<rparr>)"
  define new where "new = t3\<lparr>updated_at := now\<rparr>"
  have u: "update_task s now task_id ti d st = (Some new, session_store s new)"
    unfolding update_task_def new_def t3_def t2_def t1_def Let_def by (simp add: assms)
  have f1: "title t1 = (case ti of None \<Rightarrow> title old | Some v \<Rightarrow> v)"
    "description t1 = description old" "status t1 = status old"
    "id_pk t1 = id_pk old" "created_at t1 = created_at old"
    by (simp_all add: t1_def split: option.split)
  have f2: "title t2 = title t1"
    "description t2 = (case d of None \<Rightarrow> description t1 | Some v \<Rightarrow> Some v)"
    "status t2 = status t1" "id_pk t2 = id_pk t1" "created_at t2 = created_at t1"
    by (simp_all add: t2_def split: option.split)
  have f3: "title t3 = title t2" "description t3 = description t2"
    "status t3 = (case st of None \<Rightarrow> status t2 | Some v \<Rightarrow> v)"
    "id_pk t3 = id_pk t2" "created_at t3 = created_at t2"
    by (simp_all add: t3_def split: option.split)
  have f: "title new = (case ti of None \<Rightarrow> title old | Some v \<Rightarrow> v)"
    "description new = (case d of None \<Rightarrow> description old | Some v \<Rightarrow> Some v)"
    "status new = (case st of None \<Rightarrow> status old | Some v \<Rightarrow> v)"
    "id_pk new = id_pk old" "created_at new = created_at old" "updated_at new = now"
    by (simp_all add: new_def f1 f2 f3 cong: option.case_cong)
  have "session_get (session_store s new) task_id = Some new"
    using assms f(4) k by (simp add: session_get_store)
  then show ?thesis using u f by blast
qed

lemma keys_store: "map id_pk (session_store s t) = map id_pk s"
  by (induction s) (auto simp: session_store_def)

lemma created_view_store:
  assumes "distinct (map id_pk s)" and "old \<in> set s" and "id_pk t = id_pk old"
    and "created_at t = created_at old"
  shows "created_view (session_store s t) = created_view s"
proof -
  have "(if id_pk r = id_pk t then (id_pk t, created_at t) else (id_pk r, created_at r))
          = (id_pk r, created_at r)" if "r \<in> set s" for r
  proof (cases "id_pk r = id_pk t")
    case True
    with assms that have "r = old"
      by (metis distinct_map inj_on_def)
    with True assms show ?thesis by simp
  next
    case False
    then show ?thesis by simp
  qed
  then show ?thesis
    by (simp add: created_view_def session_store_def if_distrib [of "\<lambda>r. (id_pk r, created_at r)"]
        cong: map_cong)
qed

lemma times_within_store:
  assumes "times_within c s" and "c \<le> c'" and "created_at t \<le> updated_at t" and "updated_at t \<le> c'"
  shows "times_within c' (session_store s t)"
  using assms by (auto simp: times_within_def list_all_iff session_store_def)

lemma times_within_mono: "times_within c s \<Longrightarrow> c \<le> c' \<Longrightarrow> times_within c' s"
  by (auto simp: times_within_def list_all_iff)

lemma times_within_filter: "times_within c s \<Longrightarrow> times_within c (filter P s)"
  by (auto simp: times_within_def list_all_iff)

lemma delete_task_filter: "snd (delete_task s i) = filter (\<lambda>t. id_pk t \<noteq> Some i) s"
proof (cases "session_get s i")
  case None
  then have "\<forall>t\<in>set s. id_pk t \<noteq> Some i"
    by (force simp: session_get_None_iff)
  then have "filter (\<lambda>t. id_pk t \<noteq> Some i) s = s"
    by (simp add: filter_id_conv)
  with None show ?thesis
    by (simp add: delete_task_def)
next
  case (Some old)
  then have "id_pk old = Some i"
    by (simp add: session_get_Some_id)
  with Some show ?thesis
    by (simp add: delete_task_def session_delete_def)
qed

section \<open>Lemmas about histories\<close>

lemma create_task_step:
  assumes "distinct (map id_pk s)" and "times_within c s" and "c \<le> t1" and "t1 \<le> t2"
  shows "distinct (map id_pk (snd (create_task s t1 t2 ti d st)))"
    and "times_within t2 (snd (create_task s t1 t2 ti d st))"
    and "created_view (snd (create_task s t1 t2 ti d st)) = created_view s @ [(Some (next_id s), t1)]"
proof -
  have "Some (next_id s) \<notin> id_pk ` set s"
    using next_id_fresh [of _ s "next_id s"] by force
  with assms(1) show "distinct (map id_pk (snd (create_task s t1 t2 ti d st)))"
    by (simp add: create_task_def session_insert_def Let_def)
  have "times_within t2 s"
    using assms by (simp add: times_within_mono)
  with assms(4) show "times_within t2 (snd (create_task s t1 t2 ti d st))"
    by (simp add: create_task_def session_insert_def Let_def times_within_def)
  show "created_view (snd (create_task s t1 t2 ti d st)) = created_view s @ [(Some (next_id s), t1)]"
    by (simp add: create_task_def session_insert_def Let_def created_view_def)
qed

lemma update_task_step:
  assumes "distinct (map id_pk s)" and "times_within c s" and "c \<le> now"
  shows "distinct (map id_pk (snd (update_task s now i ti d st)))"
    and "times_within now (snd (update_task s now i ti d st))"
    and "created_view (snd (update_task s now i ti d st)) = created_view s"
proof -
  have "distinct (map id_pk (snd (update_task s now i ti d st)))
        \<and> times_within now (snd (update_task s now i ti d st))
        \<and> created_view (snd (update_task s now i ti d st)) = created_view s"
  proof (cases "session_get s i")
    case None
    with assms show ?thesis
      by (simp add: update_task_def times_within_mono)
  next
    case (Some old)
    from update_task_found [OF Some, of now ti d st] obtain new where
      u: "update_task s now i ti d st = (Some new, session_store s new)"
      and k: "id_pk new = id_pk old" and cr: "created_at new = created_at old"
      and up: "updated_at new = now"
      by blast
    from Some have mem: "old \<in> set s"
      by (simp add: session_get_Some_id)
    with assms(2) have "created_at old \<le> updated_at old" and "updated_at old \<le> c"
      by (auto simp: times_within_def list_all_iff)
    with assms(3) cr up have le: "created_at new \<le> updated_at new"
      by simp
    have "times_within now (session_store s new)"
      by (rule times_within_store [OF assms(2) assms(3) le]) (simp add: up)
    moreover have "created_view (session_store s new) = created_view s"
      by (rule created_view_store [OF assms(1) mem k cr])
    ultimately show ?thesis
      using assms(1) by (simp add: u keys_store)
  qed
  then show "distinct (map id_pk (snd (update_task s now i ti d st)))"
    and "times_within now (snd (update_task s now i ti d st))"
    and "created_view (snd (update_task s now i ti d st)) = created_view s"
    by simp_all
qed

lemma created_view_filter: "subseq (created_view (filter P s)) (created_view s)"
  unfolding created_view_def by (rule subseq_map) simp

lemma apply_operation_step:
  assumes "distinct (map id_pk s)" and "times_within c s" and "sorted (c # clock_readings op)"
  shows "distinct (map id_pk (apply_operation s op))
         \<and> times_within (last (c # clock_readings op)) (apply_operation s op)
         \<and> subseq (created_view (apply_operation s op)) (created_view s @ created_by s op)"
proof (cases op)
  case (Create t1 t2 ti d st)
  with assms(3) have "c \<le> t1" and "t1 \<le> t2" by simp_all
  from create_task_step [OF assms(1) assms(2) this, of ti d st] Create
  show ?thesis by simp
next
  case (Update now i ti d st)
  with assms(3) have "c \<le> now" by simp
  from update_task_step [OF assms(1) assms(2) this, of i ti d st] Update
  show ?thesis by simp
next
  case (Delete i)
  with assms show ?thesis
    by (simp add: delete_task_filter distinct_map_filter times_within_filter created_view_filter)
next
  case DeleteAll
  then show ?thesis
    by (simp add: delete_all_tasks_def fold_session_delete_self times_within_def created_view_def)
qed

lemma chronological_Cons:
  assumes "chronological c (op # ops)"
  shows "sorted (c # clock_readings op)" and "chronological (last (c # clock_readings op)) ops"
proof -
  from assms have srt: "sorted ((c # clock_readings op) @ concat (map clock_readings ops))"
    by (simp add: chronological_def)
  then show "sorted (c # clock_readings op)"
    unfolding sorted_append by blast
  have "c # clock_readings op = butlast (c # clock_readings op) @ [last (c # clock_readings op)]"
    by (rule append_butlast_last_id [symmetric]) simp
  with srt have "sorted (butlast (c # clock_readings op)
                   @ ([last (c # clock_readings op)] @ concat (map clock_readings ops)))"
    by (metis append_assoc)
  then have "sorted ([last (c # clock_readings op)] @ concat (map clock_readings ops))"
    unfolding sorted_append by blast
  then show "chronological (last (c # clock_readings op)) ops"
    by (simp add: chronological_def)
qed

lemma history_invariant:
  "distinct (map id_pk s) \<Longrightarrow> times_within c s \<Longrightarrow> chronological c ops \<Longrightarrow>
     distinct (map id_pk (foldl apply_operation s ops))
     \<and> times_within (last (c # concat (map clock_readings ops))) (foldl apply_operation s ops)
     \<and> subseq (created_view (foldl apply_operation s ops)) (created_view s @ created_in s ops)"
proof (induction ops arbitrary: c s)
  case Nil
  then show ?case by simp
next
  case (Cons op ops)
  let ?c = "last (c # clock_readings op)"
  let ?s = "apply_operation s op"
  note ch = chronological_Cons [OF Cons.prems(3)]
  note st = apply_operation_step [OF Cons.prems(1) Cons.prems(2) ch(1)]
  from st have d: "distinct (map id_pk ?s)" and w: "times_within ?c ?s"
    and v: "subseq (created_view ?s) (created_view s @ created_by s op)"
    by simp_all
  note ih = Cons.IH [OF d w ch(2)]
  have l: "last (c # concat (map clock_readings (op # ops)))
           = last (?c # concat (map clock_readings ops))"
    by (simp add: last_append)
  from v have "subseq (created_view ?s @ created_in ?s ops)
                 ((created_view s @ created_by s op) @ created_in ?s ops)"
    by (rule list_emb_append_mono) simp
  with ih have "subseq (created_view (foldl apply_operation ?s ops))
                  (created_view s @ created_in s (op # ops))"
    using subseq_order.trans by fastforce
  with ih show ?case
    unfolding l by simp
qed

text \<open>The keys and the creation times along a history, whatever the clock reads.\<close>

lemma create_task_created:
  assumes "distinct (map id_pk s)"
  shows "distinct (map id_pk (snd (create_task s t1 t2 ti d st)))
         \<and> created_view (snd (create_task s t1 t2 ti d st))
             = created_view s @ [(Some (next_id s), t1)]"
proof -
  have "Some (next_id s) \<notin> id_pk ` set s"
    using next_id_fresh [of _ s "next_id s"] by force
  with assms show ?thesis
    by (simp add: create_task_def session_insert_def Let_def created_view_def)
qed

lemma update_task_created:
  assumes "distinct (map id_pk s)"
  shows "distinct (map id_pk (snd (update_task s now i ti d st)))
         \<and> created_view (snd (update_task s now i ti d st)) = created_view s"
proof (cases "session_get s i")
  case None
  with assms show ?thesis
    by (simp add: update_task_def)
next
  case (Some old)
  from update_task_found [OF Some, of now ti d st] obtain new where
    u: "update_task s now i ti d st = (Some new, session_store s new)"
    and k: "id_pk new = id_pk old" and cr: "created_at new = created_at old"
    by blast
  from Some have mem: "old \<in> set s"
    by (simp add: session_get_Some_id)
  have "created_view (session_store s new) = created_view s"
    by (rule created_view_store [OF assms mem k cr])
  with assms show ?thesis
    by (simp add: u keys_store)
qed

lemma apply_operation_created:
  assumes "distinct (map id_pk s)"
  shows "distinct (map id_pk (apply_operation s op))
         \<and> subseq (created_view (apply_operation s op)) (created_view s @ created_by s op)"
proof (cases op)
  case (Create t1 t2 ti d st)
  with create_task_created [OF assms, of t1 t2 ti d st] show ?thesis by simp
next
  case (Update now i ti d st)
  with update_task_created [OF assms, of now i ti d st] show ?thesis by simp
next
  case (Delete i)
  with assms show ?thesis
    by (simp add: delete_task_filter distinct_map_filter created_view_filter)
next
  case DeleteAll
  then show ?thesis
    by (simp add: delete_all_tasks_def fold_session_delete_self created_view_def)
qed

lemma history_created:
  "distinct (map id_pk s) \<Longrightarrow>
     distinct (map id_pk (foldl apply_operation s ops))
     \<and> subseq (created_view (foldl apply_operation s ops)) (created_view s @ created_in s ops)"
proof (induction ops arbitrary: s)
  case Nil
  then show ?case by simp
next
  case (Cons op ops)
  let ?s = "apply_operation s op"
  from apply_operation_created [OF Cons.prems, of op]
  have d: "distinct (map id_pk ?s)"
    and v: "subseq (created_view ?s) (created_view s @ created_by s op)"
    by simp_all
  note ih = Cons.IH [OF d]
  from v have "subseq (created_view ?s @ created_in ?s ops)
                 ((created_view s @ created_by s op) @ created_in ?s ops)"
    by (rule list_emb_append_mono) simp
  with ih have "subseq (created_view (foldl apply_operation ?s ops))
                  (created_view s @ created_in s (op # ops))"
    using subseq_order.trans by fastforce
  with ih show ?case by simp
qed

lemma id_before_store:
  "id_pk t = id_pk old \<Longrightarrow> old \<in> set s \<Longrightarrow> sorted_wrt id_before s \<Longrightarrow>
     sorted_wrt id_before (session_store s t)"
proof -
  assume k: "id_pk t = id_pk old" and "old \<in> set s" and srt: "sorted_wrt id_before s"
  have "session_store s t = map (\<lambda>r. if id_pk r = id_pk t then t else r) s"
    by (simp add: session_store_def)
  moreover have "sorted_wrt id_before (map (\<lambda>r. if id_pk r = id_pk t then t else r) s)"
    unfolding sorted_wrt_map
    by (rule sorted_wrt_mono_rel [OF _ srt]) (auto simp: id_before_def split: option.splits)
  ultimately show ?thesis by simp
qed

lemma apply_operation_id_order:
  assumes "keyed s" and "sorted_wrt id_before s"
  shows "keyed (apply_operation s op) \<and> sorted_wrt id_before (apply_operation s op)"
proof (cases op)
  case (Create t1 t2 ti d st)
  have "id_before t t'" if "t \<in> set s" and "id_pk t' = Some (next_id s)" for t t'
  proof -
    from assms(1) that(1) obtain i where "id_pk t = Some i"
      by (auto simp: keyed_def list_all_iff)
    with that next_id_fresh [of t s i] show ?thesis
      by (simp add: id_before_def)
  qed
  with assms Create show ?thesis
    by (simp add: create_task_def session_insert_def Let_def keyed_def sorted_wrt_append)
next
  case (Update now i ti d st)
  show ?thesis
  proof (cases "session_get s i")
    case None
    with assms Update show ?thesis
      by (simp add: update_task_def)
  next
    case (Some old)
    from update_task_found [OF Some, of now ti d st] obtain new where
      u: "update_task s now i ti d st = (Some new, session_store s new)"
      and k: "id_pk new = id_pk old"
      by blast
    from Some have mem: "old \<in> set s"
      by (simp add: session_get_Some_id)
    have "map id_pk (session_store s new) = map id_pk s"
      by (rule keys_store)
    then have "list_all (\<lambda>k. k \<noteq> None) (map id_pk (session_store s new))"
      using assms(1) by (simp add: keyed_def list_all_iff)
    then have "keyed (session_store s new)"
      by (simp add: keyed_def list_all_iff)
    with id_before_store [OF k mem assms(2)] Update u show ?thesis
      by simp
  qed
next
  case (Delete i)
  with assms show ?thesis
    by (simp add: delete_task_filter keyed_def list_all_iff sorted_wrt_filter)
next
  case DeleteAll
  then show ?thesis
    by (simp add: delete_all_tasks_def fold_session_delete_self keyed_def)
qed

lemma history_id_order:
  "keyed s \<Longrightarrow> sorted_wrt id_before s \<Longrightarrow>
     keyed (foldl apply_operation s ops) \<and> sorted_wrt id_before (foldl apply_operation s ops)"
proof (induction ops arbitrary: s)
  case Nil
  then show ?case by simp
next
  case (Cons op ops)
  from apply_operation_id_order [OF Cons.prems, of op] Cons.IH [of "apply_operation s op"]
  show ?case by simp
qed

lemma times_within_ordered: "times_within c s \<Longrightarrow> time_ordered s"
  by (auto simp: times_within_def time_ordered_def list_all_iff)

lemma update_existing_task_400_iff:
  "(fst (update_existing_task s now task_id task_data) = Inl HTTP_400_BAD_REQUEST)
     = (u_title task_data \<in> {None, Some []} \<and> u_description task_data \<in> {None, Some []}
        \<and> u_status task_data \<in> {None, Some []})"
  by (auto simp: update_existing_task_def any_truthy_def truthy_def
      split: option.splits prod.splits)

lemma many_tasks_split: "many_tasks = map numbered_task [1..<101] @ [numbered_task 101]"
proof -
  have "[1..<102] = [1..<101] @ [101::nat]"
    using upt_Suc_append [of 1 101] by simp
  then show ?thesis by (simp add: many_tasks_def)
qed

lemma many_tasks_pending:
  "filter (has_status ''late'') (map numbered_task [1..<101]) = []"
  by (auto simp: filter_empty_conv has_status_def numbered_task_def)

section \<open>The claims\<close>

subsection \<open>Update\<close>

text \<open>
  C1, as the code has it. An update of an existing task returns the updated task and
  stores it under the same key. Each of \<open>title\<close>, \<open>description\<close> and \<open>status\<close> that is
  supplied takes the supplied value; each that is not supplied keeps its value, and so do
  the key and \<open>created_at\<close>. \<open>updated_at\<close> becomes the clock reading \<open>now\<close> of the update,
  whatever was supplied: it is later than before exactly when that reading is later than
  the stored value.
\<close>

theorem update_task_fields:
  assumes "get_task_by_id s task_id = Some old"
  shows "\<exists>new. update_task s now task_id ti d st = (Some new, session_store s new)
           \<and> get_task_by_id (session_store s new) task_id = Some new
           \<and> title new = (case ti of None \<Rightarrow> title old | Some v \<Rightarrow> v)
           \<and> description new = (case d of None \<Rightarrow> description old | Some v \<Rightarrow> Some v)
           \<and> status new = (case st of None \<Rightarrow> status old | Some v \<Rightarrow> v)
           \<and> id_pk new = id_pk old
           \<and> created_at new = created_at old
           \<and> updated_at new = now
           \<and> (updated_at old < updated_at new) = (updated_at old < now)
           \<and> (updated_at old \<le> updated_at new) = (updated_at old \<le> now)"
proof -
  from assms have g: "session_get s task_id = Some old"
    by (simp add: get_task_by_id_def)
  from update_task_found [OF g, of now ti d st] obtain new where
    n: "update_task s now task_id ti d st = (Some new, session_store s new)"
      "session_get (session_store s new) task_id = Some new"
      "title new = (case ti of None \<Rightarrow> title old | Some v \<Rightarrow> v)"
      "description new = (case d of None \<Rightarrow> description old | Some v \<Rightarrow> Some v)"
      "status new = (case st of None \<Rightarrow> status old | Some v \<Rightarrow> v)"
      "id_pk new = id_pk old" "created_at new = created_at old" "updated_at new = now"
    by blast
  then show ?thesis
    by (simp add: get_task_by_id_def)
qed

theorem update_task_fields_witness:
  "get_task_by_id three_tasks 2 = Some task_B
   \<and> update_task three_tasks 200 2 None None (Some ''done'')
       = (Some (task_B\<lparr>status := ''done'', updated_at := 200\<rparr>),
          [task_A, task_B\<lparr>status := ''done'', updated_at := 200\<rparr>, task_C])"
  using update_task_fields [of three_tasks 2 task_B 200 None None "Some ''done''"]
  by (simp add: get_task_by_id_def session_get_def three_tasks_def task_A_def task_B_def
      task_C_def update_task_def session_store_def Let_def)

text \<open>
  The update of task 1 reads the clock at 100, the value that \<open>updated_at\<close> already has:
  \<open>updated_at\<close> does not increase.
\<close>

theorem update_same_reading_counterexample:
  "get_task_by_id three_tasks 1 = Some task_A
   \<and> fst (update_task three_tasks 100 1 (Some ''A2'') None None) = Some (task_A\<lparr>title := ''A2''\<rparr>)
   \<and> \<not> updated_at task_A < updated_at (task_A\<lparr>title := ''A2''\<rparr>)"
  by (simp add: get_task_by_id_def session_get_def three_tasks_def task_A_def task_B_def
      task_C_def update_task_def session_store_def Let_def)

text \<open>
  C4. An update with a key that is not in the table returns \<open>None\<close> and leaves the table
  as it was: the same rows in the same order.
\<close>

theorem update_task_not_found:
  assumes "get_task_by_id s task_id = None"
  shows "update_task s now task_id ti d st = (None, s)"
  using assms by (simp add: update_task_def get_task_by_id_def)

theorem update_task_not_found_witness:
  "get_task_by_id three_tasks 7 = None
   \<and> update_task three_tasks 200 7 (Some ''X'') (Some ''y'') (Some ''done'') = (None, three_tasks)"
proof -
  have h: "get_task_by_id three_tasks 7 = None"
    by (simp add: get_task_by_id_def session_get_def three_tasks_def task_A_def task_B_def
        task_C_def)
  from update_task_not_found [OF h] h show ?thesis by simp
qed

text \<open>
  C10. When the task exists and its description is not \<open>None\<close>, the description of the
  task returned and stored by \<open>update_task\<close> is not \<open>None\<close> either: it is the old one when
  no description is supplied and the supplied string (which may be empty) otherwise.
\<close>

theorem update_task_keeps_description:
  assumes "get_task_by_id s task_id = Some old" and "description old \<noteq> None"
  shows "\<exists>new. fst (update_task s now task_id ti d st) = Some new
           \<and> get_task_by_id (snd (update_task s now task_id ti d st)) task_id = Some new
           \<and> description new \<noteq> None
           \<and> description new = (case d of None \<Rightarrow> description old | Some v \<Rightarrow> Some v)"
proof -
  from assms(1) have g: "session_get s task_id = Some old"
    by (simp add: get_task_by_id_def)
  from update_task_found [OF g, of now ti d st] obtain new where
    u: "update_task s now task_id ti d st = (Some new, session_store s new)"
    and r: "session_get (session_store s new) task_id = Some new"
    and f: "description new = (case d of None \<Rightarrow> description old | Some v \<Rightarrow> Some v)"
    by blast
  from f assms(2) have "description new \<noteq> None"
    by (cases d) simp_all
  with u r f show ?thesis
    by (simp add: get_task_by_id_def)
qed

theorem update_task_keeps_description_witness:
  "get_task_by_id three_tasks 1 = Some task_A \<and> description task_A = Some ''first''
   \<and> fst (update_task three_tasks 200 1 (Some ''A2'') None None)
       = Some (task_A\<lparr>title := ''A2'', updated_at := 200\<rparr>)
   \<and> description (task_A\<lparr>title := ''A2'', updated_at := 200\<rparr>) = Some ''first''
   \<and> fst (update_task three_tasks 200 1 None (Some []) None)
       = Some (task_A\<lparr>description := Some [], updated_at := 200\<rparr>)"
  using update_task_keeps_description [of three_tasks 1 task_A 200 "Some ''A2''" None None]
  by (simp add: get_task_by_id_def session_get_def three_tasks_def task_A_def task_B_def
      task_C_def update_task_def session_store_def Let_def)

subsection \<open>The PUT endpoint\<close>

text \<open>
  C2 at a request whose only field is an empty description, for the existing task 1: the
  endpoint answers 400 and leaves the table alone, where \<open>update_task\<close> with the same
  arguments clears the description. The endpoint tests the truth values of the fields, so
  an empty string counts as a field that was not sent.
\<close>

theorem update_existing_task_empty_description:
  "get_task_by_id [task_A] 1 = Some task_A
   \<and> update_existing_task [task_A] 200 1
        \<lparr>u_title = None, u_description = Some [], u_status = None\<rparr>
       = (Inl HTTP_400_BAD_REQUEST, [task_A])
   \<and> update_task [task_A] 200 1 None (Some []) None
       = (Some (task_A\<lparr>description := Some [], updated_at := 200\<rparr>),
          [task_A\<lparr>description := Some [], updated_at := 200\<rparr>])"
  by (simp add: update_existing_task_def any_truthy_def truthy_def get_task_by_id_def
      session_get_def task_A_def update_task_def session_store_def Let_def)

subsection \<open>Create\<close>

text \<open>
  C3, as the code has it. A create returns the new task and appends it to the table. The
  task has a key, one that no row had, and is found under it; \<open>title\<close>, \<open>description\<close> and
  \<open>status\<close> are the arguments; \<open>created_at\<close> is the first clock reading and \<open>updated_at\<close> the
  second, so the two are equal exactly when the two readings are, and \<open>created_at\<close> is not
  later than \<open>updated_at\<close> exactly when the clock did not run backwards between them.
\<close>

theorem create_task_result:
  "\<exists>new. create_task s t1 t2 ti d st = (new, s @ [new])
     \<and> id_pk new = Some (next_id s) \<and> id_pk new \<noteq> None
     \<and> get_task_by_id s (next_id s) = None
     \<and> get_task_by_id (s @ [new]) (next_id s) = Some new
     \<and> title new = ti \<and> description new = d \<and> status new = st
     \<and> created_at new = t1 \<and> updated_at new = t2
     \<and> (created_at new = updated_at new) = (t1 = t2)
     \<and> (created_at new \<le> updated_at new) = (t1 \<le> t2)"
  by (simp add: create_task_def session_insert_def Let_def get_task_by_id_def
      session_get_next_id session_get_append_new)

theorem create_task_result_witness:
  "create_task [] 10 10 ''A'' None ''pending''
     = (\<lparr>id_pk = Some 1, title = ''A'', description = None, status = ''pending'',
         created_at = 10, updated_at = 10\<rparr>,
        [\<lparr>id_pk = Some 1, title = ''A'', description = None, status = ''pending'',
          created_at = 10, updated_at = 10\<rparr>])"
  using create_task_result [of "[]" 10 10 "''A''" None "''pending''"]
  by (simp add: create_task_def session_insert_def next_id_def Let_def)

text \<open>The two readings are 10 and 11: the task's \<open>created_at\<close> and \<open>updated_at\<close> differ.\<close>

theorem create_two_readings_counterexample:
  "created_at (fst (create_task [] 10 11 ''A'' None ''pending''))
     \<noteq> updated_at (fst (create_task [] 10 11 ''A'' None ''pending''))"
  by (simp add: create_task_def session_insert_def Let_def)

subsection \<open>Delete\<close>

text \<open>
  C5. \<open>delete_all_tasks\<close> returns the number of rows the table had and leaves the table
  empty; on the empty table it returns 0.
\<close>

theorem delete_all_tasks_count:
  "delete_all_tasks s = (int (length s), []) \<and> delete_all_tasks [] = (0, [])"
  by (simp add: delete_all_tasks_def fold_session_delete_self)

theorem delete_all_tasks_count_witness:
  "delete_all_tasks three_tasks = (3, [])"
  using delete_all_tasks_count [of three_tasks] by (simp add: three_tasks_def)

text \<open>
  C7. \<open>delete_task\<close> returns \<open>True\<close> exactly when the key is in the table. Afterwards the key
  is not found, the table is the old one without the rows of that key (the old one itself
  when the key was absent), and every other key is found as before.
\<close>

theorem delete_task_found:
  "fst (delete_task s task_id) = (get_task_by_id s task_id \<noteq> None)
   \<and> get_task_by_id (snd (delete_task s task_id)) task_id = None
   \<and> snd (delete_task s task_id) = filter (\<lambda>t. id_pk t \<noteq> Some task_id) s
   \<and> (get_task_by_id s task_id = None \<longrightarrow> snd (delete_task s task_id) = s)
   \<and> (j \<noteq> task_id \<longrightarrow> get_task_by_id (snd (delete_task s task_id)) j = get_task_by_id s j)"
proof (cases "session_get s task_id")
  case None
  then show ?thesis
    by (simp add: delete_task_def get_task_by_id_def delete_task_filter [symmetric])
next
  case (Some old)
  then have k: "id_pk old = Some task_id"
    by (simp add: session_get_Some_id)
  then have "j \<noteq> task_id \<Longrightarrow> session_get (session_delete old s) j = session_get s j"
    by (simp add: session_get_delete_other)
  with Some k show ?thesis
    by (simp add: delete_task_def get_task_by_id_def session_get_delete)
      (simp add: session_delete_def)
qed

theorem delete_task_found_witness:
  "delete_task three_tasks 2 = (True, [task_A, task_C])
   \<and> get_task_by_id [task_A, task_C] 2 = None
   \<and> get_task_by_id [task_A, task_C] 3 = Some task_C
   \<and> delete_task three_tasks 7 = (False, three_tasks)"
  using delete_task_found [of three_tasks 2 3] delete_task_found [of three_tasks 7 3]
  by (simp add: delete_task_def get_task_by_id_def session_get_def session_delete_def
      three_tasks_def task_A_def task_B_def task_C_def)

subsection \<open>Listing\<close>

text \<open>
  C6, as the code has it. \<open>get_tasks_by_status\<close> returns the tasks of the whole table whose
  status is the argument, compared as strings. That is the matching part of
  \<open>get_all_tasks\<close> with \<open>skip = 0\<close> whenever the limit is at least the number of rows, so of
  \<open>get_all_tasks\<close> with its defaults when the table has at most 100 rows; the matching
  part of any page of \<open>get_all_tasks\<close> is always among its results; and it is the empty list
  when no task has that status.
\<close>

theorem get_tasks_by_status_subset:
  "(t \<in> set (get_tasks_by_status s x)) = (t \<in> set s \<and> status t = x)
   \<and> (int (length s) \<le> limit \<longrightarrow>
        get_tasks_by_status s x = filter (has_status x) (get_all_tasks s 0 limit))
   \<and> (length s \<le> 100 \<longrightarrow>
        get_tasks_by_status s x = filter (has_status x) (get_all_tasks_default s))
   \<and> set (filter (has_status x) (get_all_tasks s skip limit)) \<subseteq> set (get_tasks_by_status s x)
   \<and> (x \<notin> status ` set s \<longrightarrow> get_tasks_by_status s x = [])"
proof -
  have a: "(t \<in> set (get_tasks_by_status s x)) = (t \<in> set s \<and> status t = x)"
    by (auto simp: get_tasks_by_status_def has_status_def)
  have b: "get_tasks_by_status s x = filter (has_status x) (get_all_tasks s 0 limit)"
    if "int (length s) \<le> limit" for limit
    using that by (simp add: get_tasks_by_status_def get_all_tasks_def sql_limit_def sql_offset_def)
  have c: "set (filter (has_status x) (get_all_tasks s skip limit)) \<subseteq> set (get_tasks_by_status s x)"
    by (auto simp: get_tasks_by_status_def get_all_tasks_def sql_limit_def sql_offset_def
        dest: in_set_takeD in_set_dropD)
  have d: "get_tasks_by_status s x = []" if "x \<notin> status ` set s"
    using that by (auto simp: get_tasks_by_status_def has_status_def filter_empty_conv)
  show ?thesis using a b[of limit] b[of 100] c d by (simp add: get_all_tasks_default_def)
qed

theorem get_tasks_by_status_subset_witness:
  "get_tasks_by_status three_tasks ''pending'' = [task_A, task_B]
   \<and> filter (has_status ''pending'') (get_all_tasks_default three_tasks) = [task_A, task_B]
   \<and> get_tasks_by_status three_tasks ''archived'' = []"
  using get_tasks_by_status_subset [of task_A three_tasks "''pending''" 100 0]
    get_tasks_by_status_subset [of task_A three_tasks "''archived''" 100 0]
  by (simp add: three_tasks_def task_A_def task_B_def task_C_def get_tasks_by_status_def
      has_status_def get_all_tasks_default_def get_all_tasks_def sql_limit_def sql_offset_def)

text \<open>
  In the table of 101 rows the only task of status \<open>late\<close> is the last one, beyond the
  default limit of 100.
\<close>

theorem status_beyond_limit_counterexample:
  "get_tasks_by_status many_tasks ''late''
     \<noteq> filter (has_status ''late'') (get_all_tasks_default many_tasks)"
proof -
  have l: "get_tasks_by_status many_tasks ''late'' = [numbered_task 101]"
    by (simp add: get_tasks_by_status_def many_tasks_split many_tasks_pending)
      (simp add: has_status_def numbered_task_def)
  have g: "get_all_tasks_default many_tasks = map numbered_task [1..<101]"
    by (simp add: get_all_tasks_default_def get_all_tasks_def sql_limit_def sql_offset_def
        many_tasks_split)
  have r: "filter (has_status ''late'') (get_all_tasks_default many_tasks) = []"
    unfolding g by (rule many_tasks_pending)
  show ?thesis unfolding l r by simp
qed

text \<open>
  C8. For \<open>skip \<ge> 0\<close> and \<open>1 \<le> limit \<le> 1000\<close>, \<open>get_all_tasks\<close> skips the first \<open>skip\<close> rows
  of the table and returns at most \<open>limit\<close> of the rest, in table order: its \<open>k\<close>-th task is
  row \<open>skip + k\<close>. Where the table is in increasing order of the keys, so is the page, and
  that is so for every table built from the empty one by the repository's operations.
\<close>

theorem get_all_tasks_page:
  assumes "0 \<le> skip" and "1 \<le> limit" and "limit \<le> 1000"
  shows "get_all_tasks s skip limit = take (nat limit) (drop (nat skip) s)
         \<and> length (get_all_tasks s skip limit) = min (nat limit) (length s - nat skip)
         \<and> int (length (get_all_tasks s skip limit)) \<le> limit
         \<and> (\<forall>k < length (get_all_tasks s skip limit).
               get_all_tasks s skip limit ! k = s ! (nat skip + k))
         \<and> (sorted_wrt id_before s \<longrightarrow> sorted_wrt id_before (get_all_tasks s skip limit))
         \<and> sorted_wrt id_before (get_all_tasks (foldl apply_operation [] ops) skip limit)"
proof -
  have page: "get_all_tasks r skip limit = take (nat limit) (drop (nat skip) r)" for r
    using assms by (simp add: get_all_tasks_def sql_limit_def sql_offset_def)
  note e = page [of s]
  have ordered: "sorted_wrt id_before (get_all_tasks r skip limit)" if "sorted_wrt id_before r" for r
    unfolding page using that by (simp add: sorted_wrt_drop sorted_wrt_take)
  then have f: "sorted_wrt id_before s \<longrightarrow> sorted_wrt id_before (get_all_tasks s skip limit)"
    by simp
  have l: "length (get_all_tasks s skip limit) = min (nat limit) (length s - nat skip)"
    unfolding e by simp
  have b: "int (length (get_all_tasks s skip limit)) \<le> limit"
    unfolding l using assms by simp
  have n: "\<forall>k < length (get_all_tasks s skip limit).
               get_all_tasks s skip limit ! k = s ! (nat skip + k)"
  proof (intro allI impI)
    fix k
    assume "k < length (get_all_tasks s skip limit)"
    then have "k < nat limit \<and> k < length s - nat skip"
      unfolding l by simp
    then have "k < nat limit" and "nat skip \<le> length s"
      by arith+
    then show "get_all_tasks s skip limit ! k = s ! (nat skip + k)"
      unfolding e by (simp add: nth_drop)
  qed
  have "sorted_wrt id_before (foldl apply_operation [] ops)"
    using history_id_order [of "[]" ops] by (simp add: keyed_def)
  then have h: "sorted_wrt id_before (get_all_tasks (foldl apply_operation [] ops) skip limit)"
    by (rule ordered)
  show ?thesis using e f l b n h by blast
qed

theorem get_all_tasks_page_witness:
  "get_all_tasks three_tasks 1 1 = [task_B] \<and> get_all_tasks three_tasks 0 1000 = three_tasks
   \<and> get_all_tasks three_tasks 3 5 = []"
  using get_all_tasks_page [of 1 1 three_tasks] get_all_tasks_page [of 0 1000 three_tasks]
  by (simp add: get_all_tasks_def sql_limit_def sql_offset_def three_tasks_def)

subsection \<open>Timestamps\<close>

text \<open>
  C9, as the code has it. Take a table with distinct keys (\<open>id\<close> is the primary key) and
  any history of creates, updates, deletes and delete-alls. Whatever the clock reads, the
  keys with their creation times are afterwards, in order, among those of the table at the
  start followed by those of the rows as they were created: \<open>created_at\<close> is set by the
  create, to its first clock reading, and no later operation changes it; an update leaves
  every key and creation time as it was. Every row has \<open>created_at \<le> updated_at\<close> after
  the history provided the clock never ran backwards: the rows at the start have
  \<open>created_at \<le> updated_at \<le> c\<close> and the readings of the history, taken after \<open>c\<close>, never
  decrease. The code stores the readings without comparing them.
\<close>

theorem task_times_invariant:
  assumes "distinct (map id_pk s)"
  shows "subseq (created_view (foldl apply_operation s ops)) (created_view s @ created_in s ops)
         \<and> created_view (snd (update_task s now i ti d st)) = created_view s
         \<and> created_view (snd (create_task s t1 t2 ti' d' st'))
             = created_view s @ [(Some (next_id s), t1)]
         \<and> distinct (map id_pk (foldl apply_operation s ops))
         \<and> (times_within c s \<and> chronological c ops
              \<longrightarrow> time_ordered (foldl apply_operation s ops))"
proof -
  have "time_ordered (foldl apply_operation s ops)"
    if "times_within c s" and "chronological c ops"
    using history_invariant [OF assms that] by (blast intro: times_within_ordered)
  with history_created [OF assms, of ops] update_task_created [OF assms, of now i ti d st]
    create_task_created [OF assms, of t1 t2 ti' d' st']
  show ?thesis by blast
qed

theorem task_times_invariant_witness:
  "distinct (map id_pk ([] :: session)) \<and> times_within 0 [] \<and> chronological 0 history_example
   \<and> foldl apply_operation [] history_example
       = [\<lparr>id_pk = Some 1, title = ''A'', description = None, status = ''done'',
           created_at = 10, updated_at = 20\<rparr>]
   \<and> created_in [] history_example = [(Some 1, 10), (Some 2, 12)]
   \<and> time_ordered (foldl apply_operation [] history_example)"
proof -
  have a: "distinct (map id_pk ([] :: session))" and b: "times_within 0 []"
    by (simp_all add: times_within_def)
  have c: "chronological 0 history_example"
    by (simp add: chronological_def history_example_def)
  have s1: "create_task [] 10 11 ''A'' None ''pending''
      = (\<lparr>id_pk = Some 1, title = ''A'', description = None, status = ''pending'',
           created_at = 10, updated_at = 11\<rparr>,
         [\<lparr>id_pk = Some 1, title = ''A'', description = None, status = ''pending'',
           created_at = 10, updated_at = 11\<rparr>])"
    by (simp add: create_task_def session_insert_def next_id_def Let_def)
  have s2: "create_task [\<lparr>id_pk = Some 1, title = ''A'', description = None, status = ''pending'',
           created_at = 10, updated_at = 11\<rparr>] 12 12 ''B'' (Some ''second'') ''pending''
      = (\<lparr>id_pk = Some 2, title = ''B'', description = Some ''second'', status = ''pending'',
           created_at = 12, updated_at = 12\<rparr>,
         [\<lparr>id_pk = Some 1, title = ''A'', description = None, status = ''pending'',
           created_at = 10, updated_at = 11\<rparr>,
          \<lparr>id_pk = Some 2, title = ''B'', description = Some ''second'', status = ''pending'',
           created_at = 12, updated_at = 12\<rparr>])"
    by (simp add: create_task_def session_insert_def next_id_def Let_def)
  have d: "foldl apply_operation [] history_example
       = [\<lparr>id_pk = Some 1, title = ''A'', description = None, status = ''done'',
           created_at = 10, updated_at = 20\<rparr>]"
    by (simp add: history_example_def s1 s2 update_task_def session_get_def session_store_def
        delete_task_def session_delete_def Let_def)
  have e: "created_in [] history_example = [(Some 1, 10), (Some 2, 12)]"
    by (simp add: history_example_def s1 s2 next_id_def)
  from task_times_invariant [OF a, where ops = history_example and c = 0] a b c d e
  show ?thesis by simp
qed

text \<open>
  The clock runs backwards: task 3, created and last updated at 130, is updated at reading
  50; and a create reads 11 for \<open>created_at\<close> and then 10 for \<open>updated_at\<close>. In both
  tables a row has \<open>created_at > updated_at\<close>.
\<close>

theorem clock_back_counterexample:
  "time_ordered three_tasks
   \<and> \<not> time_ordered (apply_operation three_tasks (Update 50 3 None None (Some ''done'')))
   \<and> \<not> time_ordered (apply_operation [] (Create 11 10 ''A'' None ''pending''))"
  by (simp add: time_ordered_def three_tasks_def task_A_def task_B_def task_C_def
      update_task_def session_get_def session_store_def create_task_def session_insert_def
      Let_def)

end
